theory Spec2Isabelle
  imports Main
begin

section \<open>Exit codes and options of the selector\<close>

text \<open>
  The selector's exit codes. \<^verbatim>\<open>constants.go\<close> is not among the sources; the values are
  the ones the integration guide of the repository lists (ExitOk = 0, ExitNoMatch = 1,
  ExitError = 2, ExitBecome = 126, ExitInterrupt = 130).
\<close>

definition ExitOk :: int where
  "ExitOk = 0"

definition ExitNoMatch :: int where
  "ExitNoMatch = 1"

definition ExitError :: int where
  "ExitError = 2"

definition ExitBecome :: int where
  "ExitBecome = 126"

definition ExitInterrupt :: int where
  "ExitInterrupt = 130"

text \<open>
  The fields of \<^verbatim>\<open>fzf.Options\<close> that \<^verbatim>\<open>main\<close> reads. A Go \<^verbatim>\<open>error\<close> is
  its message, \<open>None\<close> for \<^verbatim>\<open>nil\<close>.
\<close>

record Options =
  Bash :: bool
  Zsh :: bool
  Fish :: bool
  Help :: bool
  Version :: bool
  Man :: bool
  AutoCD :: bool

type_synonym go_error = "string option"

section \<open>winpty on non-Windows builds (src/winpty.go)\<close>

text \<open>Both functions ignore their arguments; the \<^verbatim>\<open>*Options\<close> pointer may be nil.\<close>

definition needWinpty :: "Options option \<Rightarrow> bool" where
  "needWinpty opts = False"

definition runWinpty :: "string list \<Rightarrow> Options option \<Rightarrow> int \<times> string \<times> go_error" where
  "runWinpty args opts = (ExitError, [], Some ''Not supported'')"

section \<open>Paths and the file system\<close>

text \<open>
  \<^verbatim>\<open>os.Stat\<close> as a lookup: a path names a directory, a regular file or another kind of
  entry, or the call fails (\<open>None\<close>). The empty path never resolves.
\<close>

datatype filekind = Directory | RegularFile | OtherEntry

type_synonym filesystem = "string \<rightharpoonup> filekind"

definition os_Stat :: "filesystem \<Rightarrow> string \<Rightarrow> filekind option" where
  "os_Stat fs path = (if path = [] then None else fs path)"

text \<open>\<^verbatim>\<open>isDirectory\<close> of main.go: \<^verbatim>\<open>err == nil && info.IsDir()\<close>.\<close>

definition isDirectory :: "filesystem \<Rightarrow> string \<Rightarrow> bool" where
  "isDirectory fs path =
     (case os_Stat fs path of None \<Rightarrow> False | Some k \<Rightarrow> k = Directory)"

text \<open>
  \<^verbatim>\<open>filepath.Dir\<close> and \<^verbatim>\<open>filepath.Clean\<close> of the Go standard library on a Unix build
  (no volume name, separator \<^verbatim>\<open>/\<close>), which \<^verbatim>\<open>handleAutoCD\<close> calls. \<open>out\<close> is the
  output buffer of \<^verbatim>\<open>Clean\<close>, its length the write index \<^verbatim>\<open>w\<close>; \<open>dotdot\<close> is the
  index where backtracking over \<^verbatim>\<open>..\<close> must stop.
\<close>

primrec backtrack :: "string \<Rightarrow> nat \<Rightarrow> nat \<Rightarrow> nat" where
  "backtrack buf dotdot 0 = 0"
| "backtrack buf dotdot (Suc w) =
     (if Suc w > dotdot \<and> buf ! Suc w \<noteq> CHR ''/'' then backtrack buf dotdot w else Suc w)"

function clean_loop :: "bool \<Rightarrow> string \<Rightarrow> string \<Rightarrow> nat \<Rightarrow> string" where
  "clean_loop rooted [] out dotdot = out"
| "clean_loop rooted (c # cs) out dotdot =
     (if c = CHR ''/'' then clean_loop rooted cs out dotdot
      else if c = CHR ''.'' \<and> (cs = [] \<or> hd cs = CHR ''/'') then
        clean_loop rooted cs out dotdot
      else if c = CHR ''.'' \<and> hd cs = CHR ''.'' \<and> (tl cs = [] \<or> hd (tl cs) = CHR ''/'') then
        (if length out > dotdot then
           clean_loop rooted (tl cs)
             (take (backtrack out dotdot (length out - 1)) out) dotdot
         else if \<not> rooted then
           clean_loop rooted (tl cs)
             ((if length out > 0 then out @ ''/'' else out) @ ''..'')
             (length ((if length out > 0 then out @ ''/'' else out) @ ''..''))
         else clean_loop rooted (tl cs) out dotdot)
      else
        clean_loop rooted (dropWhile (\<lambda>x. x \<noteq> CHR ''/'') cs)
          ((if (rooted \<and> length out \<noteq> 1) \<or> (\<not> rooted \<and> length out \<noteq> 0)
            then out @ ''/'' else out) @ c # takeWhile (\<lambda>x. x \<noteq> CHR ''/'') cs)
          dotdot)"
  by pat_completeness auto
termination
  by (relation "measure (\<lambda>(rooted, path, out, dotdot). length path)")
     (auto simp: less_Suc_eq_le length_dropWhile_le)

definition filepath_Clean :: "string \<Rightarrow> string" where
  "filepath_Clean path =
     (if path = [] then ''.''
      else
        (let rooted = (hd path = CHR ''/'');
             out = (if rooted
                    then clean_loop True (tl path) ''/'' 1
                    else clean_loop False path [] 0)
         in if out = [] then ''.'' else out))"

definition filepath_Dir :: "string \<Rightarrow> string" where
  "filepath_Dir path = filepath_Clean (rev (dropWhile (\<lambda>c. c \<noteq> CHR ''/'') (rev path)))"

section \<open>The process and its world\<close>

text \<open>
  What a run can observe and change: the file system, the live working directory, whether
  the terminal device can be opened, the bytes written to the two output streams, and a
  log of the calls that cross component boundaries.
\<close>

datatype event =
  HandoffCalled string
  | FallbackRun
  | ScriptWritten string
  | ScriptRemoved string
  | ExecAttempted string

record world =
  fs :: filesystem
  cwd :: string
  tty_ok :: bool
  stdin_tty :: bool
  stderr :: string
  stdout :: string
  trace :: "event list"

text \<open>
  How a call ends: it returns a value to its caller, the process terminates with an exit
  code (\<^verbatim>\<open>os.Exit\<close>), or the process image is replaced and an interactive shell (its
  executable, its directory) owns the terminal. After the last two nothing of the caller
  runs any more.
\<close>

datatype 'a flow =
  Returns 'a world
  | Exits int world
  | Replaced string string world

fun and_then :: "'a flow \<Rightarrow> ('a \<Rightarrow> world \<Rightarrow> 'b flow) \<Rightarrow> 'b flow" where
  "and_then (Returns x w) k = k x w"
| "and_then (Exits c w) k = Exits c w"
| "and_then (Replaced sh d w) k = Replaced sh d w"

fun final_world :: "'a flow \<Rightarrow> world" where
  "final_world (Returns x w) = w"
| "final_world (Exits c w) = w"
| "final_world (Replaced sh d w) = w"

definition newline :: string where
  "newline = [CHR 0x0A]"

definition write_stderr :: "string \<Rightarrow> world \<Rightarrow> world" where
  "write_stderr s w = w\<lparr>stderr := stderr w @ s\<rparr>"

definition write_stdout :: "string \<Rightarrow> world \<Rightarrow> world" where
  "write_stdout s w = w\<lparr>stdout := stdout w @ s\<rparr>"

definition log_event :: "event \<Rightarrow> world \<Rightarrow> world" where
  "log_event e w = w\<lparr>trace := trace w @ [e]\<rparr>"

section \<open>main.go\<close>

text \<open>
  \<^verbatim>\<open>exit\<close>: the error is printed only with the code ExitError and a non-nil error; the
  process then terminates with the code.
\<close>

definition exit :: "int \<Rightarrow> go_error \<Rightarrow> world \<Rightarrow> unit flow" where
  "exit code err w =
     (case err of
        None \<Rightarrow> Exits code w
      | Some msg \<Rightarrow>
          if code = ExitError then Exits code (write_stderr (msg @ newline) w)
          else Exits code w)"

text \<open>
  The library entry point \<^verbatim>\<open>autocd.ExitWithDirectoryOrFallback\<close> takes the target
  directory and a fallback procedure. The functions of main.go take it as the parameter
  \<open>lib\<close>.
\<close>

type_synonym handoff_lib = "string \<Rightarrow> (world \<Rightarrow> unit flow) \<Rightarrow> world \<Rightarrow> unit flow"

text \<open>The first statement of \<^verbatim>\<open>handleAutoCD\<close>: the directory handed to the library.\<close>

definition targetDir :: "filesystem \<Rightarrow> string \<Rightarrow> string" where
  "targetDir files selectedItem =
     (if isDirectory files selectedItem then selectedItem else filepath_Dir selectedItem)"

text \<open>The fallback closure that \<^verbatim>\<open>handleAutoCD\<close> passes: a message, then exit code 0.\<close>

definition fallback :: "world \<Rightarrow> unit flow" where
  "fallback w =
     Exits 0 (write_stderr (''fzf: autocd failed, falling back to normal exit'' @ newline) w)"

definition handleAutoCD :: "handoff_lib \<Rightarrow> string \<Rightarrow> world \<Rightarrow> unit flow" where
  "handleAutoCD lib selectedItem w =
     (let dir = targetDir (fs w) selectedItem;
          w1 = (if tty_ok w then w\<lparr>stdin_tty := True\<rparr> else w)
      in lib dir fallback (log_event (HandoffCalled dir) w1))"

text \<open>
  \<^verbatim>\<open>main\<close> from the call of \<^verbatim>\<open>fzf.Run\<close> on; the selector is not part of the model, its
  result (exit code, selected item, error) is given.
\<close>

definition main_after_Run ::
  "handoff_lib \<Rightarrow> 'a Options_scheme \<Rightarrow> int \<times> string \<times> go_error \<Rightarrow> world \<Rightarrow> unit flow" where
  "main_after_Run lib options r w =
     (case r of (code, selectedItem, err) \<Rightarrow>
        if code = ExitOk \<and> AutoCD options \<and> selectedItem \<noteq> [] then
          and_then (handleAutoCD lib selectedItem w) (\<lambda>_. exit code err)
        else exit code err w)"

section \<open>The handoff library\<close>

text \<open>
  main.go imports the handoff library (\<^verbatim>\<open>github.com/codinganovel/autocd-go\<close>); its code is
  not among the sources. The definitions of this section follow the specification's data
  model and component contracts. What the library asks of the operating system is a
  parameter, the record \<open>host\<close>.
\<close>

text \<open>Modelled from the spec: the SecurityLevel of the data model (library type).\<close>

datatype SecurityLevel = Permissive | Normal | Strict

text \<open>Modelled from the spec: the shell kinds of the data model (library type).\<close>

datatype ShellKind = ShBash | ShZsh | ShFish | ShPosix | ShCmd | ShPowerShell | ShUnknown

text \<open>Modelled from the spec: the ShellDescriptor of the data model (library type).\<close>

record ShellDescriptor =
  kind :: ShellKind
  executablePath :: string
  scriptDialect :: ShellKind

text \<open>Modelled from the spec: the TargetSpec of the data model (library type).\<close>

record TargetSpec =
  rawPath :: string
  resolvedDir :: string
  exists :: bool

text \<open>Modelled from the spec: the error taxonomy HandoffError (library type).\<close>

datatype HandoffError =
  InvalidTarget
  | ShellDetectionFailed
  | ScriptGenerationFailed
  | PermissionDenied string
  | ExecFailed int
  | UnsupportedPlatform

text \<open>Modelled from the spec: HandoffOptions (library type); the fallback is an argument of its own.\<close>

record HandoffOptions =
  securityLevel :: SecurityLevel
  debug :: bool
  shellOverride :: "ShellDescriptor option"

text \<open>
  Modelled from the spec: the statements of a generated script (library, ScriptGenerator).
  \<open>ChangeDir\<close> changes the directory and, when that succeeds, prints the confirmation
  line; \<open>ExecShell\<close> replaces the script by the shell; \<open>InvokeShell\<close> runs the shell and
  waits for it; \<open>DeleteSelf\<close> removes the script file.
\<close>

datatype stmt = ChangeDir string | ExecShell string | InvokeShell string | DeleteSelf

text \<open>Modelled from the spec: the ScriptArtifact of the data model (library type).\<close>

record ScriptArtifact =
  filePath :: string
  permissions :: nat
  contents :: "stmt list"

text \<open>Modelled from the spec: the three kinds of platform of PlatformExecutor (library).\<close>

datatype Platform = InPlaceReplacement | SpawnAndWait | NoHandoffPrimitive

text \<open>
  Modelled from the spec: what the library reads from the operating system. The platform's
  handoff primitive; the debug environment toggle; the user's configured shell; whether a
  path is an executable file; whether the user can read and enter a directory; whether a
  directory is reached through a symlink that leaves the allowed roots; the fresh private
  temporary file for the script (none when the temporary directory cannot be written);
  whether that location is world-writable without a private subdirectory; the error the
  replacement or spawn primitive reports (none on success); the exit code of the shell
  that is spawned and waited for.
\<close>

record host =
  platform :: Platform
  env_debug :: "string option"
  env_shell :: "string option"
  executable :: "string \<Rightarrow> bool"
  enterable :: "string \<Rightarrow> bool"
  outside_roots :: "string \<Rightarrow> bool"
  tmp_script :: "string option"
  tmp_unprotected :: bool
  exec_error :: "int option"
  child_exit :: int

text \<open>
  Modelled from the spec: PathResolver.resolve (library). The empty path and a path that does
  not exist fail with InvalidTarget; the path is made absolute against the live working
  directory; a directory resolves to itself, any other entry to its parent.
\<close>

text \<open>Modelled from the spec: the absolute form of a path against the working directory (library, PathResolver).\<close>

definition absolute :: "string \<Rightarrow> string \<Rightarrow> string" where
  "absolute wd path =
     (if path \<noteq> [] \<and> hd path = CHR ''/'' then filepath_Clean path
      else filepath_Clean (wd @ ''/'' @ path))"

text \<open>Modelled from the spec: PathResolver.resolve (library), on the absolute path.\<close>

definition resolve :: "world \<Rightarrow> string \<Rightarrow> HandoffError + TargetSpec" where
  "resolve w raw =
     (if raw = [] then Inl InvalidTarget
      else
        (case os_Stat (fs w) (absolute (cwd w) raw) of
           None \<Rightarrow> Inl InvalidTarget
         | Some Directory \<Rightarrow>
             Inr \<lparr>rawPath = raw, resolvedDir = absolute (cwd w) raw, exists = True\<rparr>
         | Some _ \<Rightarrow>
             Inr \<lparr>rawPath = raw, resolvedDir = filepath_Dir (absolute (cwd w) raw),
                  exists = True\<rparr>))"

text \<open>
  Modelled from the spec: SecurityPolicy.validate (library). Every level checks that the
  directory exists; Normal and Strict that the user can read and enter it; Strict also the
  symlink roots and the placement of the script. A failure is PermissionDenied with the
  offending path.
\<close>

text \<open>Modelled from the spec: SecurityPolicy.validate (library).\<close>

definition validate :: "host \<Rightarrow> world \<Rightarrow> TargetSpec \<Rightarrow> SecurityLevel \<Rightarrow> HandoffError + unit" where
  "validate h w spec level =
     (if isDirectory (fs w) (resolvedDir spec) then
        (if level = Permissive then Inr ()
         else if enterable h (resolvedDir spec) then
           (if level = Normal then Inr ()
            else if outside_roots h (resolvedDir spec) then
              Inl (PermissionDenied (resolvedDir spec))
            else if tmp_unprotected h then
              Inl (PermissionDenied (case tmp_script h of None \<Rightarrow> [] | Some p \<Rightarrow> p))
            else Inr ())
         else Inl (PermissionDenied (resolvedDir spec)))
      else Inl (PermissionDenied (resolvedDir spec)))"

text \<open>
  Modelled from the spec: ShellDetector.detect (library). An override is checked and
  returned as it is; otherwise the configured shell's executable name gives the kind, an
  unrecognised name the kind Posix. Detection fails only when the executable cannot be
  found.
\<close>

text \<open>Modelled from the spec: the executable name of a shell path (library, ShellDetector).\<close>

definition base_name :: "string \<Rightarrow> string" where
  "base_name path = rev (takeWhile (\<lambda>c. c \<noteq> CHR ''/'') (rev path))"

text \<open>Modelled from the spec: the map from a shell's executable name to its kind (library, ShellDetector).\<close>

definition shell_kind :: "string \<Rightarrow> ShellKind" where
  "shell_kind name =
     (if name = ''bash'' then ShBash
      else if name = ''zsh'' then ShZsh
      else if name = ''fish'' then ShFish
      else if name = ''cmd'' \<or> name = ''cmd.exe'' then ShCmd
      else if name = ''powershell'' \<or> name = ''powershell.exe'' \<or> name = ''pwsh'' then
        ShPowerShell
      else ShPosix)"

text \<open>Modelled from the spec: ShellDetector.detect (library).\<close>

definition detect :: "host \<Rightarrow> ShellDescriptor option \<Rightarrow> HandoffError + ShellDescriptor" where
  "detect h override =
     (case override of
        Some sd \<Rightarrow>
          if executable h (executablePath sd) then Inr sd else Inl ShellDetectionFailed
      | None \<Rightarrow>
          (case env_shell h of
             None \<Rightarrow> Inl ShellDetectionFailed
           | Some p \<Rightarrow>
               if executable h p then
                 Inr \<lparr>kind = shell_kind (base_name p), executablePath = p,
                      scriptDialect = shell_kind (base_name p)\<rparr>
               else Inl ShellDetectionFailed))"

text \<open>
  Modelled from the spec: ScriptGenerator.generate (library). The script changes to the
  resolved directory, printing the confirmation line, and then hands over to the shell: a
  POSIX-style shell is exec'ed; the other dialects invoke the shell and delete the script
  as the last statement. The artifact is written with owner-only read and execute
  permission; a write failure is ScriptGenerationFailed and leaves no file.
\<close>

text \<open>Modelled from the spec: which dialects exec the shell (library, ScriptGenerator).\<close>

definition posix_style :: "ShellKind \<Rightarrow> bool" where
  "posix_style k = (k \<noteq> ShCmd \<and> k \<noteq> ShPowerShell)"

text \<open>Modelled from the spec: the script text per dialect (library, ScriptGenerator).\<close>

definition script_for :: "TargetSpec \<Rightarrow> ShellDescriptor \<Rightarrow> stmt list" where
  "script_for spec shell =
     (if posix_style (scriptDialect shell)
      then [ChangeDir (resolvedDir spec), ExecShell (executablePath shell)]
      else [ChangeDir (resolvedDir spec), InvokeShell (executablePath shell), DeleteSelf])"

text \<open>Modelled from the spec: the artifact's permission bits, octal 500 (library, ScriptGenerator).\<close>

definition owner_read_execute :: nat where
  "owner_read_execute = 320"

text \<open>Modelled from the spec: ScriptGenerator.generate (library).\<close>

definition generate ::
  "host \<Rightarrow> TargetSpec \<Rightarrow> ShellDescriptor \<Rightarrow> world \<Rightarrow> HandoffError + ScriptArtifact \<times> world" where
  "generate h spec shell w =
     (case tmp_script h of
        None \<Rightarrow> Inl ScriptGenerationFailed
      | Some p \<Rightarrow>
          Inr (\<lparr>filePath = p, permissions = owner_read_execute,
                contents = script_for spec shell\<rparr>,
               log_event (ScriptWritten p) (w\<lparr>fs := (fs w)(p \<mapsto> RegularFile)\<rparr>)))"

text \<open>
  Modelled from the spec: the effect of running a generated script (library, the script's
  two effects in order). The script ends either because a shell took its place or with
  the exit code of the last shell it waited for.
\<close>

text \<open>Modelled from the spec: the confirmation line of the script (library, ScriptGenerator).\<close>

definition confirmation :: "string \<Rightarrow> string" where
  "confirmation dir = ''Directory changed to: '' @ dir @ newline"

text \<open>Modelled from the spec: how a run of the generated script ends (library, ScriptGenerator).\<close>

datatype script_end = ShellTookOver string world | ScriptDone int world

text \<open>Modelled from the spec: the run of a generated script, statement by statement (library, ScriptGenerator).\<close>

fun run_script :: "string \<Rightarrow> int \<Rightarrow> stmt list \<Rightarrow> int \<Rightarrow> world \<Rightarrow> script_end" where
  "run_script self shell_code [] code w = ScriptDone code w"
| "run_script self shell_code (ChangeDir d # rest) code w =
     (if isDirectory (fs w) d
      then run_script self shell_code rest 0 (write_stdout (confirmation d) (w\<lparr>cwd := d\<rparr>))
      else run_script self shell_code rest 1 w)"
| "run_script self shell_code (ExecShell sh # rest) code w = ShellTookOver sh w"
| "run_script self shell_code (InvokeShell sh # rest) code w =
     run_script self shell_code rest shell_code w"
| "run_script self shell_code (DeleteSelf # rest) code w =
     run_script self shell_code rest code
       (log_event (ScriptRemoved self) (w\<lparr>fs := (fs w)(self := None)\<rparr>))"

text \<open>
  Modelled from the spec: PlatformExecutor.execute (library). With a replacement primitive
  the script interpreter becomes the process image; without one the interpreter is spawned
  and waited for and the host exits with the child's exit code. The call returns only an
  error: ExecFailed with the primitive's error, or UnsupportedPlatform.
\<close>

text \<open>Modelled from the spec: PlatformExecutor.execute (library).\<close>

definition execute :: "host \<Rightarrow> ScriptArtifact \<Rightarrow> world \<Rightarrow> HandoffError flow" where
  "execute h artifact w =
     (case platform h of
        NoHandoffPrimitive \<Rightarrow> Returns UnsupportedPlatform w
      | InPlaceReplacement \<Rightarrow>
          (case exec_error h of
             Some errno \<Rightarrow>
               Returns (ExecFailed errno) (log_event (ExecAttempted (filePath artifact)) w)
           | None \<Rightarrow>
               (case run_script (filePath artifact) (child_exit h) (contents artifact) 0
                       (log_event (ExecAttempted (filePath artifact)) w) of
                  ShellTookOver sh w' \<Rightarrow> Replaced sh (cwd w') w'
                | ScriptDone c w' \<Rightarrow> Exits c w'))
      | SpawnAndWait \<Rightarrow>
          (case exec_error h of
             Some errno \<Rightarrow>
               Returns (ExecFailed errno) (log_event (ExecAttempted (filePath artifact)) w)
           | None \<Rightarrow>
               (case run_script (filePath artifact) (child_exit h) (contents artifact) 0
                       (log_event (ExecAttempted (filePath artifact)) w) of
                  ShellTookOver sh w' \<Rightarrow> Exits (child_exit h) w'
                | ScriptDone c w' \<Rightarrow> Exits c w')))"

text \<open>
  Modelled from the spec: HandoffController (library). \<open>invoke\<close> runs the stages in order
  and returns the first error; after a failed execute it deletes the artifact before it
  returns. With debug on, the resolver, the shell detector and the script generator each
  write one line to the error stream. \<open>invokeOrFallback\<close> runs the fallback after any
  error and then terminates the process with code 0.
\<close>

text \<open>Modelled from the spec: one debug line, written only with debug on (library, HandoffController).\<close>

definition trace_line :: "HandoffOptions \<Rightarrow> string \<Rightarrow> world \<Rightarrow> world" where
  "trace_line opts msg w = (if debug opts then write_stderr (msg @ newline) w else w)"

text \<open>Modelled from the spec: the controller's deletion of the artifact (library, HandoffController).\<close>

definition remove_artifact :: "ScriptArtifact \<Rightarrow> world \<Rightarrow> world" where
  "remove_artifact artifact w =
     log_event (ScriptRemoved (filePath artifact))
       (w\<lparr>fs := (fs w)(filePath artifact := None)\<rparr>)"

text \<open>Modelled from the spec: the controller's last step, execute and clean up after a failure (library, HandoffController).\<close>

definition hand_over :: "host \<Rightarrow> ScriptArtifact \<Rightarrow> world \<Rightarrow> HandoffError flow" where
  "hand_over h artifact w =
     (case execute h artifact w of
        Returns e w' \<Rightarrow> Returns e (remove_artifact artifact w')
      | Exits c w' \<Rightarrow> Exits c w'
      | Replaced sh d w' \<Rightarrow> Replaced sh d w')"

text \<open>Modelled from the spec: the resolver's debug line (library, HandoffController).\<close>

definition note_target :: "HandoffOptions \<Rightarrow> TargetSpec \<Rightarrow> world \<Rightarrow> world" where
  "note_target opts spec w = trace_line opts (''autocd: target '' @ resolvedDir spec) w"

text \<open>Modelled from the spec: the shell detector's debug line (library, HandoffController).\<close>

definition note_shell :: "HandoffOptions \<Rightarrow> ShellDescriptor \<Rightarrow> world \<Rightarrow> world" where
  "note_shell opts shell w = trace_line opts (''autocd: shell '' @ executablePath shell) w"

text \<open>Modelled from the spec: the script generator's debug line (library, HandoffController).\<close>

definition note_script :: "HandoffOptions \<Rightarrow> ScriptArtifact \<Rightarrow> world \<Rightarrow> world" where
  "note_script opts artifact w = trace_line opts (''autocd: script '' @ filePath artifact) w"

text \<open>Modelled from the spec: HandoffController.invoke (library).\<close>

definition invoke :: "host \<Rightarrow> string \<Rightarrow> HandoffOptions \<Rightarrow> world \<Rightarrow> HandoffError flow" where
  "invoke h path opts w =
     (case resolve w path of
        Inl e \<Rightarrow> Returns e w
      | Inr spec \<Rightarrow>
          (case validate h (note_target opts spec w) spec (securityLevel opts) of
             Inl e \<Rightarrow> Returns e (note_target opts spec w)
           | Inr _ \<Rightarrow>
               (case detect h (shellOverride opts) of
                  Inl e \<Rightarrow> Returns e (note_target opts spec w)
                | Inr shell \<Rightarrow>
                    (case generate h spec shell
                            (note_shell opts shell (note_target opts spec w)) of
                       Inl e \<Rightarrow> Returns e (note_shell opts shell (note_target opts spec w))
                     | Inr (artifact, w') \<Rightarrow>
                         hand_over h artifact (note_script opts artifact w')))))"

text \<open>Modelled from the spec: HandoffController.invokeOrFallback (library).\<close>

definition invokeOrFallback ::
  "host \<Rightarrow> string \<Rightarrow> HandoffOptions \<Rightarrow> (world \<Rightarrow> unit flow) \<Rightarrow> world \<Rightarrow> unit flow" where
  "invokeOrFallback h path opts fb w =
     (case invoke h path opts w of
        Returns e w' \<Rightarrow> and_then (fb (log_event FallbackRun w')) (\<lambda>_. Exits 0)
      | Exits c w' \<Rightarrow> Exits c w'
      | Replaced sh d w' \<Rightarrow> Replaced sh d w')"

text \<open>
  Modelled from the spec: the library's entry points under the names main.go and the
  repository's notes use. They take no options: the defaults are security level Normal, no
  shell override, and debug read once from the environment toggle, on only for the value 1.
\<close>

text \<open>Modelled from the spec: the default HandoffOptions (library).\<close>

definition default_options :: "host \<Rightarrow> HandoffOptions" where
  "default_options h =
     \<lparr>securityLevel = Normal, debug = (env_debug h = Some ''1''), shellOverride = None\<rparr>"


text \<open>Modelled from the spec: the guaranteed-exit entry point that main.go calls, invokeOrFallback with the default options (library).\<close>

definition ExitWithDirectoryOrFallback :: "host \<Rightarrow> handoff_lib" where
  "ExitWithDirectoryOrFallback h path fb w = invokeOrFallback h path (default_options h) fb w"

section \<open>Observations on a run\<close>

text \<open>How often the fallback procedure was run, and the world in which a script ended.\<close>

definition fallback_runs :: "world \<Rightarrow> nat" where
  "fallback_runs w = count_list (trace w) FallbackRun"

fun end_world :: "script_end \<Rightarrow> world" where
  "end_world (ShellTookOver sh w) = w"
| "end_world (ScriptDone c w) = w"

text \<open>An absolute path: it starts with the separator.\<close>

definition rooted_path :: "string \<Rightarrow> bool" where
  "rooted_path p = (case p of [] \<Rightarrow> False | c # _ \<Rightarrow> c = CHR ''/'')"

section \<open>The lexical form of a path\<close>

text \<open>
  What the documentation of Go's \<^verbatim>\<open>filepath.Clean\<close> says the function computes, on the
  elements of a path instead of its bytes: the path is split at the separators; empty
  elements and \<^verbatim>\<open>.\<close> are dropped; \<^verbatim>\<open>..\<close> removes the element kept before it, is dropped at
  the root, and is kept at the start of a relative path; the elements kept are joined by
  single separators, after the root's separator if the path is rooted; an empty result is
  \<^verbatim>\<open>.\<close>. \<^verbatim>\<open>filepath.Dir\<close> does the same to the path without its last element. These
  definitions are the specification the byte loop above is compared with.
\<close>

fun split_path :: "string \<Rightarrow> string list" where
  "split_path [] = [[]]"
| "split_path (c # cs) =
     (if c = CHR ''/'' then [] # split_path cs
      else (case split_path cs of [] \<Rightarrow> [[c]] | x # xs \<Rightarrow> (c # x) # xs))"

fun join_path :: "string list \<Rightarrow> string" where
  "join_path [] = []"
| "join_path [x] = x"
| "join_path (x # y # ys) = x @ ''/'' @ join_path (y # ys)"

fun lexical_elements :: "bool \<Rightarrow> string list \<Rightarrow> string list \<Rightarrow> string list" where
  "lexical_elements rooted kept [] = kept"
| "lexical_elements rooted kept (x # xs) =
     (if x = [] \<or> x = ''.'' then lexical_elements rooted kept xs
      else if x = ''..'' then
        (if kept \<noteq> [] \<and> last kept \<noteq> ''..'' then lexical_elements rooted (butlast kept) xs
         else if rooted then lexical_elements rooted kept xs
         else lexical_elements rooted (kept @ [''..'']) xs)
      else lexical_elements rooted (kept @ [x]) xs)"

definition render_path :: "bool \<Rightarrow> string list \<Rightarrow> string" where
  "render_path rooted kept =
     (if rooted then CHR ''/'' # join_path kept
      else if kept = [] then ''.'' else join_path kept)"

definition lexical_clean :: "string \<Rightarrow> string" where
  "lexical_clean p = render_path (rooted_path p) (lexical_elements (rooted_path p) [] (split_path p))"

definition lexical_parent :: "string \<Rightarrow> string" where
  "lexical_parent p =
     render_path (rooted_path p) (lexical_elements (rooted_path p) [] (butlast (split_path p)))"

text \<open>
  For the comparison: the output buffer that holds the elements kept so far, elements
  that are not empty and hold no separator, the place of \<open>dotdot\<close> in that buffer, and
  the text of a path up to its last separator.
\<close>

definition buffer :: "bool \<Rightarrow> string list \<Rightarrow> string" where
  "buffer rooted kept = (if rooted then CHR ''/'' # join_path kept else join_path kept)"

definition plain :: "string list \<Rightarrow> bool" where
  "plain kept = (\<forall>x\<in>set kept. x \<noteq> [] \<and> CHR ''/'' \<notin> set x)"

definition floor_ok :: "bool \<Rightarrow> string list \<Rightarrow> nat \<Rightarrow> bool" where
  "floor_ok rooted kept dotdot =
     (if rooted then dotdot = 1 \<and> ''..'' \<notin> set kept
      else (\<exists>k rest. kept = replicate k ''..'' @ rest \<and> ''..'' \<notin> set rest \<and>
                     dotdot = length (join_path (replicate k ''..''))))"

definition dir_text :: "string \<Rightarrow> string" where
  "dir_text p = rev (dropWhile (\<lambda>c. c \<noteq> CHR ''/'') (rev p))"

text \<open>
  A file system for the case of a symbolic link: \<^verbatim>\<open>/edge/lnk\<close> is a link to the directory
  \<^verbatim>\<open>/data/sub\<close>, so \<^verbatim>\<open>os.Stat\<close>, which follows links, finds the file
  \<^verbatim>\<open>/data/file.txt\<close> under the path \<^verbatim>\<open>/edge/lnk/../file.txt\<close>; the directory
  \<^verbatim>\<open>/edge\<close> holds nothing but the link.
\<close>

definition edge_files :: filesystem where
  "edge_files =
     map_of
       [(''/edge'', Directory),
        (''/edge/lnk'', Directory),
        (''/data'', Directory),
        (''/data/sub'', Directory),
        (''/data/file.txt'', RegularFile),
        (''/edge/lnk/../file.txt'', RegularFile)]"

definition edge_world :: world where
  "edge_world =
     \<lparr>fs = edge_files, cwd = ''/'', tty_ok = True, stdin_tty = False,
      stderr = [], stdout = [], trace = []\<rparr>"

section \<open>Example worlds\<close>

text \<open>
  A small file system with the paths of the specification's scenarios and of the report
  on the launch from the root directory, a process started in the root directory, and a
  POSIX host with bash whose replacement primitive works.
\<close>

definition demo_files :: filesystem where
  "demo_files =
     map_of
       [(''/'', Directory),
        (''/tmp'', Directory),
        (''/bin/bash'', RegularFile),
        (''/home/user/projects'', Directory),
        (''/home/user/projects/readme.md'', RegularFile),
        (''/Users/sam/Desktop/Notes'', Directory),
        (''/Users/sam/Desktop/Notes/tasks.md'', RegularFile),
        (''Users/sam/Desktop/Notes'', Directory),
        (''Users/sam/Desktop/Notes/tasks.md'', RegularFile)]"

definition demo_world :: world where
  "demo_world =
     \<lparr>fs = demo_files, cwd = ''/'', tty_ok = True, stdin_tty = False,
      stderr = [], stdout = [], trace = []\<rparr>"

definition demo_host :: host where
  "demo_host =
     \<lparr>platform = InPlaceReplacement, env_debug = None, env_shell = Some ''/bin/bash'',
      executable = (\<lambda>p. p = ''/bin/bash''), enterable = (\<lambda>p. True),
      outside_roots = (\<lambda>p. False), tmp_script = Some ''/tmp/autocd_1.sh'',
      tmp_unprotected = False, exec_error = None, child_exit = 0\<rparr>"

definition demo_options :: Options where
  "demo_options =
     \<lparr>Bash = False, Zsh = False, Fish = False, Help = False, Version = False,
      Man = False, AutoCD = True\<rparr>"

text \<open>
  Three hosts on which one stage of the handoff fails: no configured shell, no writable
  temporary directory, and a replacement primitive that reports error 13.
\<close>

definition no_shell_host :: host where
  "no_shell_host = demo_host\<lparr>env_shell := None\<rparr>"

definition no_tmp_host :: host where
  "no_tmp_host = demo_host\<lparr>tmp_script := None\<rparr>"

definition exec_fails_host :: host where
  "exec_fails_host = demo_host\<lparr>exec_error := Some 13\<rparr>"

section \<open>Theorems\<close>

text \<open>
  C10. On non-Windows builds \<^verbatim>\<open>needWinpty\<close> is false for every options value (a nil
  pointer included) and \<^verbatim>\<open>runWinpty\<close> returns exit code ExitError, the empty string and
  the error "Not supported", whatever its arguments; it never returns the success code
  and never a nil error.
\<close>

theorem winpty_not_supported:
  "needWinpty opts = False \<and>
   runWinpty args opts = (ExitError, [], Some ''Not supported'') \<and>
   fst (runWinpty args opts) \<noteq> ExitOk \<and>
   snd (snd (runWinpty args opts)) \<noteq> None"
  by (simp add: needWinpty_def runWinpty_def ExitError_def ExitOk_def)

subsection \<open>The byte loop of Clean computes the lexical form\<close>

lemma join_snoc: "join_path (st @ [x]) = (if st = [] then x else join_path st @ ''/'' @ x)"
  by (induction st rule: join_path.induct) auto

lemma join_append:
  "join_path (a @ b) =
     (if a = [] then join_path b else if b = [] then join_path a
      else join_path a @ ''/'' @ join_path b)"
  by (induction a rule: join_path.induct) (auto simp: neq_Nil_conv)

lemma split_nonempty [simp]: "split_path p \<noteq> []"
  by (cases p) (auto split: list.splits)

lemma split_path_Cons [simp]:
  "split_path (c # cs) =
     (if c = CHR ''/'' then [] # split_path cs
      else (c # hd (split_path cs)) # tl (split_path cs))"
  using split_nonempty [of cs] by (cases "split_path cs") simp_all

declare split_path.simps(2) [simp del]

lemma hd_split: "hd (split_path p) = takeWhile (\<lambda>c. c \<noteq> CHR ''/'') p"
  by (induction p) auto

lemma elements_after_component:
  "lexical_elements r kept (split_path (dropWhile (\<lambda>c. c \<noteq> CHR ''/'') p)) =
   lexical_elements r kept (tl (split_path p))"
  by (induction p) auto

lemma backtrack_stops:
  assumes "lo \<le> w" and "dotdot \<le> lo" and "lo = dotdot \<or> buf ! lo = CHR ''/''"
    and "\<forall>i. lo < i \<and> i \<le> w \<longrightarrow> buf ! i \<noteq> CHR ''/''"
  shows "backtrack buf dotdot w = lo"
  using assms
proof (induction w)
  case 0
  then show ?case by simp
next
  case (Suc w)
  show ?case
  proof (cases "lo = Suc w")
    case True
    then show ?thesis using Suc.prems by auto
  next
    case False
    then have "lo \<le> w" using Suc.prems(1) by simp
    moreover have "Suc w > dotdot \<and> buf ! Suc w \<noteq> CHR ''/''"
      using Suc.prems False by auto
    ultimately show ?thesis
      using Suc by simp
  qed
qed

lemma join_empty: "plain kept \<Longrightarrow> (join_path kept = [] \<longleftrightarrow> kept = [])"
  by (induction kept rule: join_path.induct) (auto simp: plain_def)

lemma plain_append: "plain (a @ b) \<longleftrightarrow> plain a \<and> plain b"
  by (auto simp: plain_def)

lemma join_longer:
  assumes "plain rest" and "rest \<noteq> []"
  shows "length (join_path a) < length (join_path (a @ rest))"
  using assms join_empty [of rest]
  by (auto simp: join_append)

lemma can_backtrack:
  assumes "plain kept" and "floor_ok rooted kept dotdot"
  shows "dotdot < length (buffer rooted kept) \<longleftrightarrow> kept \<noteq> [] \<and> last kept \<noteq> ''..''"
proof (cases rooted)
  case True
  have "''..'' \<notin> set kept"
    using assms(2) True by (simp add: floor_ok_def)
  then have "kept \<noteq> [] \<Longrightarrow> last kept \<noteq> ''..''"
    by (metis last_in_set)
  then show ?thesis
    using True assms join_empty [of kept]
    by (auto simp: floor_ok_def buffer_def)
next
  case False
  then obtain k rest where k: "kept = replicate k ''..'' @ rest" "''..'' \<notin> set rest"
      "dotdot = length (join_path (replicate k ''..''))"
    using assms(2) by (auto simp: floor_ok_def)
  have pr: "plain rest"
    using assms(1) k(1) by (simp add: plain_append)
  show ?thesis
  proof (cases "rest = []")
    case True
    then show ?thesis
      using k False by (cases k) (auto simp: buffer_def)
  next
    case nonempty: False
    then have "last kept = last rest"
      using k(1) by simp
    then have "last kept \<noteq> ''..''"
      using k(2) nonempty last_in_set by metis
    then show ?thesis
      using join_longer [OF pr nonempty, of "replicate k ''..''"] k False nonempty
      by (auto simp: buffer_def)
  qed
qed

lemma cannot_backtrack:
  assumes "plain kept" and "floor_ok False kept dotdot"
    and "\<not> (kept \<noteq> [] \<and> last kept \<noteq> ''..'')"
  shows "\<exists>k. kept = replicate k ''..''"
proof -
  obtain k rest where k: "kept = replicate k ''..'' @ rest" "''..'' \<notin> set rest"
    using assms(2) by (auto simp: floor_ok_def)
  have "rest = []"
  proof (rule ccontr)
    assume ne: "rest \<noteq> []"
    then have "last kept = last rest" using k(1) by simp
    then have "last kept \<noteq> ''..''" using k(2) ne last_in_set by metis
    then show False using assms(3) k(1) ne by simp
  qed
  then show ?thesis using k(1) by auto
qed


lemma floor_butlast:
  assumes "floor_ok rooted (kept @ [x]) dotdot" and "x \<noteq> ''..''"
  shows "floor_ok rooted kept dotdot"
proof (cases rooted)
  case True
  then show ?thesis using assms(1) by (simp add: floor_ok_def)
next
  case False
  then obtain k rest where k: "kept @ [x] = replicate k ''..'' @ rest" "''..'' \<notin> set rest"
      "dotdot = length (join_path (replicate k ''..''))"
    using assms(1) by (auto simp: floor_ok_def)
  have "rest \<noteq> []"
  proof
    assume "rest = []"
    then have "x \<in> set (replicate k ''..'')"
      using k(1) by (metis append_Nil2 last_in_set snoc_eq_iff_butlast)
    then show False using assms(2) by auto
  qed
  then obtain rest' where r: "rest = rest' @ [x]" "kept = replicate k ''..'' @ rest'"
    using k(1) by (metis append_assoc append_butlast_last_id butlast_snoc last_appendR last_snoc)
  then have "''..'' \<notin> set rest'"
    using k(2) by simp
  then show ?thesis
    using False r(2) k(3) by (auto simp: floor_ok_def)
qed

lemma floor_below:
  assumes "floor_ok rooted kept dotdot"
  shows "dotdot \<le> length (buffer rooted kept)"
proof (cases rooted)
  case True
  then show ?thesis using assms by (simp add: floor_ok_def buffer_def)
next
  case False
  then obtain k rest where k: "kept = replicate k ''..'' @ rest"
      "dotdot = length (join_path (replicate k ''..''))"
    using assms by (auto simp: floor_ok_def)
  then show ?thesis
    using False by (auto simp: buffer_def join_append)
qed

lemma floor_single:
  assumes "floor_ok rooted [x] dotdot" and "x \<noteq> ''..''"
  shows "dotdot = length (buffer rooted [])"
  using floor_butlast [of rooted "[]" x dotdot] assms
  by (auto simp: floor_ok_def buffer_def)

lemma after_backtrack:
  assumes pl: "plain (kept @ [x])" and fl: "floor_ok rooted (kept @ [x]) dotdot"
    and x: "x \<noteq> ''..''"
  shows "take (backtrack (buffer rooted (kept @ [x])) dotdot
                 (length (buffer rooted (kept @ [x])) - 1))
              (buffer rooted (kept @ [x])) = buffer rooted kept"
proof -
  let ?b = "buffer rooted kept"
  let ?out = "buffer rooted (kept @ [x])"
  have xs: "x \<noteq> []" "CHR ''/'' \<notin> set x"
    using pl by (auto simp: plain_def)
  show ?thesis
  proof (cases "kept = []")
    case True
    then have out: "?out = ?b @ x"
      by (simp add: buffer_def)
    have dd: "dotdot = length ?b"
      using floor_single fl x True by simp
    have "backtrack ?out dotdot (length ?out - 1) = length ?b"
    proof (rule backtrack_stops)
      show "length ?b \<le> length ?out - 1" using out xs(1) by (cases x) auto
      show "dotdot \<le> length ?b" using dd by simp
      show "length ?b = dotdot \<or> ?out ! length ?b = CHR ''/''" using dd by simp
      show "\<forall>i. length ?b < i \<and> i \<le> length ?out - 1 \<longrightarrow> ?out ! i \<noteq> CHR ''/''"
      proof (intro allI impI)
        fix i assume i: "length ?b < i \<and> i \<le> length ?out - 1"
        then have "?out ! i = x ! (i - length ?b)" and "i - length ?b < length x"
          using out xs(1) by (auto simp: nth_append)
        then show "?out ! i \<noteq> CHR ''/''"
          using xs(2) nth_mem by metis
      qed
    qed
    then show ?thesis using out by simp
  next
    case False
    then have out: "?out = ?b @ ''/'' @ x"
      by (simp add: buffer_def join_snoc)
    have dd: "dotdot \<le> length ?b"
      using floor_below [OF floor_butlast [OF fl x]] .
    have "backtrack ?out dotdot (length ?out - 1) = length ?b"
    proof (rule backtrack_stops)
      show "length ?b \<le> length ?out - 1" using out by simp
      show "dotdot \<le> length ?b" using dd .
      show "length ?b = dotdot \<or> ?out ! length ?b = CHR ''/''" using out by (simp add: nth_append)
      show "\<forall>i. length ?b < i \<and> i \<le> length ?out - 1 \<longrightarrow> ?out ! i \<noteq> CHR ''/''"
      proof (intro allI impI)
        fix i assume i: "length ?b < i \<and> i \<le> length ?out - 1"
        then have "?out ! i = x ! (i - length ?b - 1)" and "i - length ?b - 1 < length x"
          using out xs(1) by (auto simp: nth_append nth_Cons')
        then show "?out ! i \<noteq> CHR ''/''"
          using xs(2) nth_mem by metis
      qed
    qed
    then show ?thesis using out by simp
  qed
qed


lemma component_dot:
  "takeWhile (\<lambda>c. c \<noteq> CHR ''/'') t = [] \<longleftrightarrow> t = [] \<or> hd t = CHR ''/''"
  by (cases t) auto

lemma component_dotdot:
  "takeWhile (\<lambda>c. c \<noteq> CHR ''/'') t = ''.'' \<longleftrightarrow>
     t \<noteq> [] \<and> hd t = CHR ''.'' \<and> (tl t = [] \<or> hd (tl t) = CHR ''/'')"
  by (cases t) (auto simp: component_dot)

lemma rest_after_dot:
  "t = [] \<or> hd t = CHR ''/'' \<Longrightarrow> dropWhile (\<lambda>c. c \<noteq> CHR ''/'') t = t"
  by (cases t) auto

lemma rest_after_dotdot:
  "takeWhile (\<lambda>c. c \<noteq> CHR ''/'') t = ''.'' \<Longrightarrow> dropWhile (\<lambda>c. c \<noteq> CHR ''/'') t = tl t"
  by (cases t) (auto simp: component_dot rest_after_dot split: if_splits)

lemma floor_push:
  assumes "floor_ok rooted kept dotdot" and "x \<noteq> ''..''"
  shows "floor_ok rooted (kept @ [x]) dotdot"
proof (cases rooted)
  case True
  then show ?thesis using assms by (simp add: floor_ok_def)
next
  case False
  then obtain k rest where k: "kept = replicate k ''..'' @ rest" "''..'' \<notin> set rest"
      "dotdot = length (join_path (replicate k ''..''))"
    using assms(1) by (auto simp: floor_ok_def)
  have "kept @ [x] = replicate k ''..'' @ (rest @ [x]) \<and> ''..'' \<notin> set (rest @ [x])"
    using k assms(2) by simp
  then show ?thesis
    using False k(3) unfolding floor_ok_def by (simp only: if_False) blast
qed

lemma push_buffer:
  assumes "plain kept"
  shows "buffer rooted (kept @ [x]) =
         (if rooted \<and> length (buffer rooted kept) \<noteq> 1 \<or>
             \<not> rooted \<and> length (buffer rooted kept) \<noteq> 0
          then buffer rooted kept @ ''/'' else buffer rooted kept) @ x"
  using join_empty [OF assms] by (auto simp: buffer_def join_snoc)


lemma plain_dots: "plain (replicate k ''..'')"
  by (simp add: plain_def)

lemma push_dotdot:
  assumes "kept = replicate k ''..''"
  shows "buffer False (kept @ [''..'']) =
           (if 0 < length (buffer False kept) then buffer False kept @ ''/''
            else buffer False kept) @ ''..''"
    and "plain (kept @ [''..''])"
    and "floor_ok False (kept @ [''..'']) (length (buffer False (kept @ [''..''])))"
proof -
  have pl: "plain kept"
    using assms plain_dots by simp
  show "buffer False (kept @ [''..'']) =
           (if 0 < length (buffer False kept) then buffer False kept @ ''/''
            else buffer False kept) @ ''..''"
    using join_empty [OF pl] by (cases "kept = []") (simp_all add: buffer_def join_snoc)
  have "kept @ [''..''] = replicate (Suc k) ''..''"
    using assms by (simp add: replicate_append_same)
  then show "plain (kept @ [''..''])"
    using plain_dots [of "Suc k"] by simp
  have "\<exists>n rest. kept @ [''..''] = replicate n ''..'' @ rest \<and> ''..'' \<notin> set rest \<and>
          length (join_path (kept @ [''..''])) = length (join_path (replicate n ''..''))"
    using \<open>kept @ [''..''] = replicate (Suc k) ''..''\<close>
    by (intro exI [of _ "Suc k"] exI [of _ "[]"]) simp
  then show "floor_ok False (kept @ [''..'']) (length (buffer False (kept @ [''..''])))"
    unfolding floor_ok_def buffer_def by (simp only: if_False)
qed


lemma elements_keep:
  "x \<noteq> [] \<Longrightarrow> x \<noteq> ''.'' \<Longrightarrow> x \<noteq> ''..'' \<Longrightarrow>
   lexical_elements r kept (x # xs) = lexical_elements r (kept @ [x]) xs"
  by simp

lemma clean_loop_refines:
  assumes "plain kept" and "floor_ok rooted kept dotdot"
  shows "clean_loop rooted cs (buffer rooted kept) dotdot =
         buffer rooted (lexical_elements rooted kept (split_path cs))"
  using assms
proof (induction "length cs" arbitrary: cs kept dotdot rule: less_induct)
  case less
  note pl = less.prems(1) and fl = less.prems(2)
  let ?out = "buffer rooted kept"
  show ?case
  proof (cases cs)
    case Nil
    then show ?thesis by simp
  next
    case (Cons c t)
    show ?thesis
    proof (cases "c = CHR ''/''")
      case True
      have "clean_loop rooted cs ?out dotdot = clean_loop rooted t ?out dotdot"
        using Cons True by simp
      also have "\<dots> = buffer rooted (lexical_elements rooted kept (split_path t))"
        using less.hyps [of t kept dotdot] Cons pl fl by simp
      also have "\<dots> = buffer rooted (lexical_elements rooted kept (split_path cs))"
        using Cons True by simp
      finally show ?thesis .
    next
      case False
      let ?x = "c # takeWhile (\<lambda>c. c \<noteq> CHR ''/'') t"
      let ?rest = "dropWhile (\<lambda>c. c \<noteq> CHR ''/'') t"
      have shorter: "length ?rest < length cs"
        using Cons by (simp add: length_dropWhile_le less_Suc_eq_le)
      have sp: "split_path cs = ?x # tl (split_path t)"
        using Cons False by (simp add: hd_split)
      have tail: "lexical_elements r k (tl (split_path t)) =
                  lexical_elements r k (split_path ?rest)" for r k
        by (simp add: elements_after_component)
      have xp: "?x \<noteq> []" "CHR ''/'' \<notin> set ?x"
        using False by (auto dest: set_takeWhileD)
      consider (dot) "?x = ''.''" | (dotdot) "?x = ''..''"
        | (elem) "?x \<noteq> ''.''" "?x \<noteq> ''..''"
        by blast
      then show ?thesis
      proof cases
        case dot
        then have c: "c = CHR ''.''" and tw: "takeWhile (\<lambda>c. c \<noteq> CHR ''/'') t = []"
          by simp_all
        have t: "t = [] \<or> hd t = CHR ''/''"
          using tw by (simp add: component_dot)
        have rest: "?rest = t"
          using t by (rule rest_after_dot)
        have "clean_loop rooted cs ?out dotdot = clean_loop rooted t ?out dotdot"
          using Cons c t by auto
        also have "\<dots> = buffer rooted (lexical_elements rooted kept (split_path t))"
          using less.hyps [of t kept dotdot] Cons pl fl by simp
        also have "\<dots> = buffer rooted (lexical_elements rooted kept (split_path cs))"
          using sp dot tail [of rooted kept] rest by simp
        finally show ?thesis .
      next
        case dotdot
        then have c: "c = CHR ''.''" and tw: "takeWhile (\<lambda>c. c \<noteq> CHR ''/'') t = ''.''"
          by simp_all
        have t: "t \<noteq> []" "hd t = CHR ''.''" "tl t = [] \<or> hd (tl t) = CHR ''/''"
          using tw by (simp_all add: component_dotdot)
        have rest: "?rest = tl t"
          using tw by (rule rest_after_dotdot)
        have shorter': "length (tl t) < length cs"
          using Cons by simp
        have spec: "lexical_elements rooted kept (split_path cs) =
            (if kept \<noteq> [] \<and> last kept \<noteq> ''..''
             then lexical_elements rooted (butlast kept) (split_path (tl t))
             else if rooted then lexical_elements rooted kept (split_path (tl t))
             else lexical_elements rooted (kept @ [''..'']) (split_path (tl t)))"
          using sp dotdot tail rest by simp
        have loop: "clean_loop rooted cs ?out dotdot =
            (if dotdot < length ?out then
               clean_loop rooted (tl t)
                 (take (backtrack ?out dotdot (length ?out - 1)) ?out) dotdot
             else if \<not> rooted then
               clean_loop rooted (tl t)
                 ((if length ?out > 0 then ?out @ ''/'' else ?out) @ ''..'')
                 (length ((if length ?out > 0 then ?out @ ''/'' else ?out) @ ''..''))
             else clean_loop rooted (tl t) ?out dotdot)"
          using c t unfolding Cons by (subst clean_loop.simps) auto
        show ?thesis
        proof (cases "kept \<noteq> [] \<and> last kept \<noteq> ''..''")
          case True
          then have can: "dotdot < length ?out"
            using can_backtrack [OF pl fl] by simp
          have kept: "kept = butlast kept @ [last kept]"
            using True by simp
          have pl': "plain (butlast kept)"
            using pl kept plain_append by metis
          have fl': "floor_ok rooted (butlast kept) dotdot"
            using floor_butlast [of rooted "butlast kept" "last kept" dotdot] fl kept True
            by simp
          have "take (backtrack ?out dotdot (length ?out - 1)) ?out =
                buffer rooted (butlast kept)"
            using after_backtrack [of "butlast kept" "last kept" rooted dotdot] pl fl kept True
            by simp
          then have "clean_loop rooted cs ?out dotdot =
                clean_loop rooted (tl t) (buffer rooted (butlast kept)) dotdot"
            using loop can by simp
          also have "\<dots> =
                buffer rooted (lexical_elements rooted (butlast kept) (split_path (tl t)))"
            using less.hyps [OF shorter' pl' fl'] .
          finally show ?thesis
            using spec True by simp
        next
          case False
          then have cannot: "\<not> dotdot < length ?out"
            using can_backtrack [OF pl fl] by simp
          show ?thesis
          proof (cases rooted)
            case True
            have "clean_loop rooted cs ?out dotdot = clean_loop rooted (tl t) ?out dotdot"
              using loop cannot True by simp
            also have "\<dots> = buffer rooted (lexical_elements rooted kept (split_path (tl t)))"
              using less.hyps [OF shorter' pl fl] .
            finally show ?thesis
              using spec False True by simp
          next
            case unrooted: False
            obtain k where k: "kept = replicate k ''..''"
              using cannot_backtrack [of kept dotdot] pl fl False unrooted by auto
            note push = push_dotdot [OF k]
            have "clean_loop rooted cs ?out dotdot =
                  clean_loop rooted (tl t) (buffer rooted (kept @ [''..'']))
                    (length (buffer rooted (kept @ [''..''])))"
              using loop cannot unrooted push(1) by simp
            also have "\<dots> =
                  buffer rooted (lexical_elements rooted (kept @ [''..'']) (split_path (tl t)))"
              using less.hyps [OF shorter' push(2)] push(3) unrooted by simp
            finally show ?thesis
              using spec False unrooted by simp
          qed
        qed
      next
        case elem
        have no2: "\<not> (c = CHR ''.'' \<and> (t = [] \<or> hd t = CHR ''/''))"
          using elem(1) by (auto simp: component_dot)
        have no3: "\<not> (c = CHR ''.'' \<and> hd t = CHR ''.'' \<and> (tl t = [] \<or> hd (tl t) = CHR ''/''))"
        proof
          assume a: "c = CHR ''.'' \<and> hd t = CHR ''.'' \<and> (tl t = [] \<or> hd (tl t) = CHR ''/'')"
          then have "t \<noteq> []" using no2 by auto
          then have "takeWhile (\<lambda>c. c \<noteq> CHR ''/'') t = ''.''"
            using a by (simp add: component_dotdot)
          then show False using elem(2) a by simp
        qed
        have pl': "plain (kept @ [?x])"
          using pl xp by (simp add: plain_def)
        have fl': "floor_ok rooted (kept @ [?x]) dotdot"
          using floor_push [OF fl elem(2)] .
        have "clean_loop rooted (c # t) ?out dotdot =
              clean_loop rooted ?rest
                ((if rooted \<and> length ?out \<noteq> 1 \<or> \<not> rooted \<and> length ?out \<noteq> 0
                  then ?out @ ''/'' else ?out) @ ?x) dotdot"
          by (subst clean_loop.simps) (simp only: False no2 no3 if_False)
        then have "clean_loop rooted cs ?out dotdot =
              clean_loop rooted ?rest (buffer rooted (kept @ [?x])) dotdot"
          using push_buffer [OF pl, of rooted ?x] Cons by simp
        also have "\<dots> =
              buffer rooted (lexical_elements rooted (kept @ [?x]) (split_path ?rest))"
          using less.hyps [OF shorter pl' fl'] .
        also have "\<dots> =
              buffer rooted (lexical_elements rooted (kept @ [?x]) (tl (split_path t)))"
          by (simp only: tail)
        also have "lexical_elements rooted (kept @ [?x]) (tl (split_path t)) =
              lexical_elements rooted kept (?x # tl (split_path t))"
          using elements_keep [OF xp(1) elem] by simp
        finally show ?thesis
          by (simp only: sp)
      qed
    qed
  qed
qed


lemma split_no_separator: "x \<in> set (split_path p) \<Longrightarrow> CHR ''/'' \<notin> set x"
proof (induction p arbitrary: x)
  case Nil
  then show ?case by simp
next
  case (Cons c cs)
  have hd_in: "hd (split_path cs) \<in> set (split_path cs)"
    by simp
  have tl_in: "y \<in> set (tl (split_path cs)) \<Longrightarrow> y \<in> set (split_path cs)" for y
    by (metis list.set_sel(2) split_nonempty)
  show ?case
    using Cons.prems Cons.IH [OF hd_in] Cons.IH [OF tl_in] Cons.IH
    by (auto split: if_splits)
qed

lemma elements_plain:
  assumes "plain kept" and "\<forall>x\<in>set xs. CHR ''/'' \<notin> set x"
  shows "plain (lexical_elements r kept xs)"
  using assms
proof (induction xs arbitrary: kept)
  case Nil
  then show ?case by simp
next
  case (Cons x xs)
  have rest: "\<forall>y\<in>set xs. CHR ''/'' \<notin> set y"
    using Cons.prems(2) by simp
  have drop: "plain (butlast kept)"
    using Cons.prems(1) by (auto simp: plain_def dest: in_set_butlastD)
  have dots: "plain (kept @ [''..''])"
    using Cons.prems(1) by (simp add: plain_def)
  have keep: "x \<noteq> [] \<Longrightarrow> plain (kept @ [x])"
    using Cons.prems by (simp add: plain_def)
  show ?case
    using Cons.IH [OF Cons.prems(1) rest] Cons.IH [OF drop rest] Cons.IH [OF dots rest]
      Cons.IH [OF keep rest]
    by (cases r) (auto simp del: butlast.simps)
qed

lemma elements_of_path_plain: "plain (lexical_elements r [] (split_path p))"
  by (rule elements_plain) (auto simp: plain_def dest: split_no_separator)

lemma filepath_Clean_lexical: "filepath_Clean p = lexical_clean p"
proof (cases p)
  case Nil
  then show ?thesis
    by (simp add: filepath_Clean_def lexical_clean_def rooted_path_def render_path_def)
next
  case (Cons c t)
  have start: "plain []" "floor_ok True [] 1" "floor_ok False [] 0"
    by (auto simp: plain_def floor_ok_def intro: exI [of _ 0])
  show ?thesis
  proof (cases "c = CHR ''/''")
    case True
    have "clean_loop True t ''/'' 1 = buffer True (lexical_elements True [] (split_path t))"
      using clean_loop_refines [OF start(1) start(2), of t] by (simp add: buffer_def)
    then show ?thesis
      using Cons True
      by (simp add: filepath_Clean_def lexical_clean_def rooted_path_def render_path_def
            buffer_def)
  next
    case False
    let ?kept = "lexical_elements False [] (split_path p)"
    have loop: "clean_loop False p [] 0 = join_path ?kept"
      using clean_loop_refines [OF start(1) start(3), of p] by (simp add: buffer_def)
    have "join_path ?kept = [] \<longleftrightarrow> ?kept = []"
      using join_empty [OF elements_of_path_plain] .
    then show ?thesis
      using Cons False loop
      by (simp add: filepath_Clean_def lexical_clean_def rooted_path_def render_path_def)
  qed
qed

lemma dir_text_Nil: "dir_text [] = []"
  by (simp add: dir_text_def)

lemma dir_text_Cons:
  "dir_text (c # cs) =
     (if CHR ''/'' \<in> set cs then c # dir_text cs
      else if c = CHR ''/'' then ''/'' else [])"
  by (auto simp: dir_text_def dropWhile_append)

lemma split_single: "CHR ''/'' \<notin> set p \<Longrightarrow> split_path p = [p]"
  by (induction p) auto

lemma split_many: "CHR ''/'' \<in> set p \<Longrightarrow> tl (split_path p) \<noteq> []"
  by (induction p) auto

lemma split_dir_text:
  "split_path (dir_text p) =
     (if CHR ''/'' \<in> set p then butlast (split_path p) @ [[]] else [[]])"
proof (induction p)
  case Nil
  then show ?case by (simp add: dir_text_Nil)
next
  case (Cons c cs)
  show ?case
  proof (cases "CHR ''/'' \<in> set cs")
    case True
    have many: "tl (split_path cs) \<noteq> []"
      using True by (rule split_many)
    then have bl: "butlast (split_path cs) \<noteq> []"
      by (cases "split_path cs") auto
    have "hd (butlast (split_path cs) @ [[]]) = hd (split_path cs)"
      using bl by (cases "split_path cs") auto
    moreover have "tl (butlast (split_path cs) @ [[]]) = butlast (tl (split_path cs)) @ [[]]"
      using bl by (cases "split_path cs") auto
    ultimately show ?thesis
      using True Cons many by (simp add: dir_text_Cons)
  next
    case False
    then have "split_path cs = [cs]"
      by (rule split_single)
    then show ?thesis
      using False by (simp add: dir_text_Cons)
  qed
qed

lemma rooted_dir_text: "rooted_path (dir_text p) = rooted_path p"
  by (cases p) (simp_all add: rooted_path_def dir_text_Cons dir_text_Nil)

lemma elements_trailing_empty:
  "lexical_elements r kept (xs @ [[]]) = lexical_elements r kept xs"
  by (induction xs arbitrary: kept r) simp_all

lemma filepath_Dir_lexical: "filepath_Dir p = lexical_parent p"
proof -
  have "lexical_elements r [] (split_path (dir_text p)) =
        lexical_elements r [] (butlast (split_path p))" for r
    by (simp add: split_dir_text elements_trailing_empty split_single)
  moreover have "filepath_Dir p = lexical_clean (dir_text p)"
    by (simp add: filepath_Dir_def dir_text_def filepath_Clean_lexical)
  ultimately show ?thesis
    by (simp add: lexical_clean_def lexical_parent_def rooted_dir_text)
qed

lemma split_append: "split_path (a @ CHR ''/'' # b) = split_path a @ split_path b"
  by (induction a) auto

lemma lexical_parent_of_child:
  assumes "CHR ''/'' \<notin> set name" and "dir \<noteq> []"
  shows "lexical_parent (dir @ ''/'' @ name) = lexical_clean dir"
proof -
  have "rooted_path (dir @ ''/'' @ name) = rooted_path dir"
    using assms(2) by (cases dir) (simp_all add: rooted_path_def)
  moreover have "butlast (split_path (dir @ ''/'' @ name)) = split_path dir"
    using assms(1) by (simp add: split_append split_single butlast_append)
  ultimately show ?thesis
    by (simp add: lexical_parent_def lexical_clean_def)
qed

lemma lexical_parent_at_root:
  assumes "CHR ''/'' \<notin> set name"
  shows "lexical_parent (''/'' @ name) = ''/''"
  using assms
  by (simp add: lexical_parent_def rooted_path_def split_single render_path_def)

lemma lexical_parent_of_name:
  assumes "CHR ''/'' \<notin> set name"
  shows "lexical_parent name = ''.''"
proof -
  have "\<not> rooted_path name"
    using assms by (cases name) (auto simp: rooted_path_def)
  then show ?thesis
    using assms by (simp add: lexical_parent_def split_single render_path_def)
qed

subsection \<open>What main.go hands to the library\<close>

lemma exit_terminates:
  "\<exists>w'. exit code err w = Exits code w' \<and> trace w' = trace w \<and> fs w' = fs w \<and>
        stdout w' = stdout w \<and> cwd w' = cwd w"
  by (cases err) (simp_all add: exit_def write_stderr_def)


lemma main_attempts_handoff:
  assumes "code = ExitOk" and "AutoCD options" and "item \<noteq> []"
  shows "main_after_Run lib options (code, item, err) w =
         and_then (handleAutoCD lib item w) (\<lambda>_. exit code err)"
  using assms by (simp add: main_after_Run_def)



text \<open>Some rows of the test tables of Go's \<^verbatim>\<open>path/filepath\<close> package, as a check of the model.\<close>

lemma filepath_Clean_examples:
  "filepath_Clean [] = ''.'' \<and>
   filepath_Clean ''abc//def//ghi'' = ''abc/def/ghi'' \<and>
   filepath_Clean ''abc/def/../ghi/../jkl'' = ''abc/jkl'' \<and>
   filepath_Clean ''abc/def/../../..'' = ''..'' \<and>
   filepath_Clean ''/abc/def/../../..'' = ''/'' \<and>
   filepath_Clean ''abc/../../././../def'' = ''../../def'' \<and>
   filepath_Clean ''/../abc'' = ''/abc''"
  by code_simp

lemma filepath_Dir_examples:
  "filepath_Dir [] = ''.'' \<and>
   filepath_Dir ''/'' = ''/'' \<and>
   filepath_Dir ''/foo'' = ''/'' \<and>
   filepath_Dir ''x/'' = ''x'' \<and>
   filepath_Dir ''abc'' = ''.'' \<and>
   filepath_Dir ''a/b/c.x'' = ''a/b''"
  by code_simp





text \<open>
  C8. With the empty string as the selected item \<^verbatim>\<open>main\<close> does not call
  \<^verbatim>\<open>handleAutoCD\<close>, whatever the exit code and the options are: the run is the normal
  \<^verbatim>\<open>exit(code, err)\<close>, the process terminates with the selector's code, and the log, the
  file system, the standard output and the working directory are as before (no handoff
  call, no script, no replacement).
\<close>

theorem empty_selection_skips_handoff:
  "main_after_Run lib options (code, [], err) w = exit code err w \<and>
   (\<exists>w'. main_after_Run lib options (code, [], err) w = Exits code w' \<and>
         trace w' = trace w \<and> fs w' = fs w \<and> stdout w' = stdout w \<and> cwd w' = cwd w)"
proof -
  have "main_after_Run lib options (code, [], err) w = exit code err w"
    by (simp add: main_after_Run_def)
  then show ?thesis
    using exit_terminates [of code err w] by simp
qed

text \<open>
  C9. Unless the selector returned ExitOk, the autocd option is on and the selected item
  is not empty, \<^verbatim>\<open>main\<close> does not call \<^verbatim>\<open>handleAutoCD\<close>: whatever the library is, the
  run is the normal \<^verbatim>\<open>exit(code, err)\<close>, the process terminates with the selector's own
  exit code, and the log, the file system, the standard output and the working directory
  are as before. So the handoff is attempted only when all three conditions hold.
\<close>

theorem handoff_only_after_ok_autocd_selection:
  assumes "\<not> (code = ExitOk \<and> AutoCD options \<and> item \<noteq> [])"
  shows "main_after_Run lib options (code, item, err) w = exit code err w \<and>
         (\<exists>w'. main_after_Run lib options (code, item, err) w = Exits code w' \<and>
               trace w' = trace w \<and> fs w' = fs w \<and> stdout w' = stdout w \<and>
               cwd w' = cwd w)"
proof -
  have "main_after_Run lib options (code, item, err) w = exit code err w"
    using assms by (auto simp: main_after_Run_def)
  then show ?thesis
    using exit_terminates [of code err w] by simp
qed

theorem handoff_only_after_ok_autocd_selection_witness:
  "\<not> (ExitInterrupt = ExitOk \<and> AutoCD demo_options \<and> ''/tmp'' \<noteq> []) \<and>
   main_after_Run (ExitWithDirectoryOrFallback demo_host) demo_options
     (ExitInterrupt, ''/tmp'', None) demo_world = Exits 130 demo_world"
proof -
  have h: "\<not> (ExitInterrupt = ExitOk \<and> AutoCD demo_options \<and> ''/tmp'' \<noteq> [])"
    by (simp add: ExitInterrupt_def ExitOk_def)
  show ?thesis
    using h handoff_only_after_ok_autocd_selection
      [OF h, of "ExitWithDirectoryOrFallback demo_host" None demo_world]
    by (simp add: exit_def ExitInterrupt_def)
qed




subsection \<open>The stages of the handoff\<close>

text \<open>
  A run of \<open>invoke\<close> ends in exactly one of five ways: the resolver, the security policy,
  the shell detector or the script generator fails, or the artifact is handed to the
  executor.
\<close>

lemma invoke_stages:
  obtains
    (unresolved) e where "resolve w path = Inl e" and "invoke h path opts w = Returns e w"
  | (denied) spec e where "resolve w path = Inr spec"
      and "validate h (note_target opts spec w) spec (securityLevel opts) = Inl e"
      and "invoke h path opts w = Returns e (note_target opts spec w)"
  | (no_shell) spec e where "resolve w path = Inr spec"
      and "validate h (note_target opts spec w) spec (securityLevel opts) = Inr ()"
      and "detect h (shellOverride opts) = Inl e"
      and "invoke h path opts w = Returns e (note_target opts spec w)"
  | (no_script) spec shell e where "resolve w path = Inr spec"
      and "validate h (note_target opts spec w) spec (securityLevel opts) = Inr ()"
      and "detect h (shellOverride opts) = Inr shell"
      and "generate h spec shell (note_shell opts shell (note_target opts spec w)) = Inl e"
      and "invoke h path opts w = Returns e (note_shell opts shell (note_target opts spec w))"
  | (handed) spec shell artifact w3 where "resolve w path = Inr spec"
      and "validate h (note_target opts spec w) spec (securityLevel opts) = Inr ()"
      and "detect h (shellOverride opts) = Inr shell"
      and "generate h spec shell (note_shell opts shell (note_target opts spec w)) = Inr (artifact, w3)"
      and "invoke h path opts w = hand_over h artifact (note_script opts artifact w3)"
proof (cases "resolve w path")
  case (Inl e)
  then show thesis
    using unresolved by (simp add: invoke_def)
next
  case spec: (Inr spec)
  show thesis
  proof (cases "validate h (note_target opts spec w) spec (securityLevel opts)")
    case (Inl e)
    then show thesis
      using spec denied by (simp add: invoke_def)
  next
    case ok: (Inr u)
    show thesis
    proof (cases "detect h (shellOverride opts)")
      case (Inl e)
      then show thesis
        using spec ok no_shell by (simp add: invoke_def)
    next
      case shell: (Inr shell)
      show thesis
      proof (cases "generate h spec shell (note_shell opts shell (note_target opts spec w))")
        case (Inl e)
        then show thesis
          using spec ok shell no_script by (simp add: invoke_def)
      next
        case (Inr written)
        then show thesis
          using spec ok shell handed [of spec shell "fst written" "snd written"]
          by (simp add: invoke_def split: prod.splits)
      qed
    qed
  qed
qed


lemma trace_line_keeps [simp]:
  "fs (trace_line opts m w) = fs w"
  "trace (trace_line opts m w) = trace w"
  "stdout (trace_line opts m w) = stdout w"
  "cwd (trace_line opts m w) = cwd w"
  by (simp_all add: trace_line_def write_stderr_def)

lemma note_keeps [simp]:
  "fs (note_target opts spec w) = fs w"
  "trace (note_target opts spec w) = trace w"
  "stdout (note_target opts spec w) = stdout w"
  "cwd (note_target opts spec w) = cwd w"
  "fs (note_shell opts shell w) = fs w"
  "trace (note_shell opts shell w) = trace w"
  "stdout (note_shell opts shell w) = stdout w"
  "cwd (note_shell opts shell w) = cwd w"
  "fs (note_script opts artifact w) = fs w"
  "trace (note_script opts artifact w) = trace w"
  "stdout (note_script opts artifact w) = stdout w"
  "cwd (note_script opts artifact w) = cwd w"
  by (simp_all add: note_target_def note_shell_def note_script_def)

lemma resolve_error: "resolve w path = Inl e \<Longrightarrow> e = InvalidTarget"
  by (auto simp: resolve_def split: if_splits option.splits filekind.splits)

lemma validate_error: "validate h w spec level = Inl e \<Longrightarrow> \<exists>p. e = PermissionDenied p"
  by (auto simp: validate_def split: if_splits)

lemma detect_error: "detect h override = Inl e \<Longrightarrow> e = ShellDetectionFailed"
  by (auto simp: detect_def split: option.splits if_splits)

lemma generate_error:
  "generate h spec shell w = Inl e \<Longrightarrow> e = ScriptGenerationFailed \<and> tmp_script h = None"
  by (auto simp: generate_def split: option.splits)

lemma generate_written:
  assumes "generate h spec shell w = Inr (artifact, w')"
  shows "tmp_script h = Some (filePath artifact) \<and>
         contents artifact = script_for spec shell \<and>
         fs w' = (fs w)(filePath artifact \<mapsto> RegularFile) \<and>
         trace w' = trace w @ [ScriptWritten (filePath artifact)] \<and>
         stderr w' = stderr w \<and> stdout w' = stdout w \<and> cwd w' = cwd w"
  using assms by (auto simp: generate_def log_event_def split: option.splits)

lemma execute_returns_only_errors:
  assumes "execute h artifact w = Returns e w'"
  shows "(platform h = NoHandoffPrimitive \<and> e = UnsupportedPlatform \<and> w' = w) \<or>
         (platform h \<noteq> NoHandoffPrimitive \<and> exec_error h \<noteq> None \<and>
          e = ExecFailed (the (exec_error h)) \<and>
          w' = log_event (ExecAttempted (filePath artifact)) w)"
  using assms
  by (auto simp: execute_def split: Platform.splits option.splits script_end.splits)

lemma hand_over_returns:
  assumes "hand_over h artifact w = Returns e w1"
  shows "fs w1 = (fs w)(filePath artifact := None) \<and>
         ((e = UnsupportedPlatform \<and>
           trace w1 = trace w @ [ScriptRemoved (filePath artifact)]) \<or>
          (e = ExecFailed (the (exec_error h)) \<and> exec_error h \<noteq> None \<and>
           trace w1 = trace w @ [ExecAttempted (filePath artifact),
                                 ScriptRemoved (filePath artifact)]))"
proof -
  obtain w' where ex: "execute h artifact w = Returns e w'"
    and w1: "w1 = remove_artifact artifact w'"
    using assms by (auto simp: hand_over_def split: flow.splits)
  show ?thesis
    using execute_returns_only_errors [OF ex] w1
    by (auto simp: remove_artifact_def log_event_def)
qed

lemma run_script_quiet:
  "stderr (end_world (run_script self sc stmts code w)) = stderr w \<and>
   fallback_runs (end_world (run_script self sc stmts code w)) = fallback_runs w"
  by (induction self sc stmts code w rule: run_script.induct)
     (simp_all add: write_stdout_def log_event_def fallback_runs_def)

lemma execute_quiet:
  "stderr (final_world (execute h a w)) = stderr w \<and>
   fallback_runs (final_world (execute h a w)) = fallback_runs w"
proof -
  let ?w = "log_event (ExecAttempted (filePath a)) w"
  have "stderr ?w = stderr w \<and> fallback_runs ?w = fallback_runs w"
    by (simp add: log_event_def fallback_runs_def)
  then have "stderr (end_world (run_script (filePath a) (child_exit h) (contents a) 0 ?w)) =
               stderr w \<and>
             fallback_runs (end_world (run_script (filePath a) (child_exit h) (contents a) 0 ?w)) =
               fallback_runs w"
    using run_script_quiet [of "filePath a" "child_exit h" "contents a" 0 ?w] by simp
  then show ?thesis
    by (auto simp: execute_def log_event_def fallback_runs_def
             split: Platform.splits option.splits script_end.splits)
qed

lemma hand_over_quiet:
  "stderr (final_world (hand_over h a w)) = stderr w \<and>
   fallback_runs (final_world (hand_over h a w)) = fallback_runs w"
  using execute_quiet [of h a w]
  by (auto simp: hand_over_def remove_artifact_def log_event_def fallback_runs_def
           split: flow.splits)

lemma trace_line_stderr:
  "stderr (trace_line opts m w) = stderr w @ (if debug opts then m @ newline else [])"
  by (simp add: trace_line_def write_stderr_def)


lemma invoke_stderr:
  "\<exists>s. stderr (final_world (invoke h path opts w)) = stderr w @ s \<and>
       (if debug opts then (\<exists>spec. resolve w path = Inr spec) \<longrightarrow> s \<noteq> [] else s = [])"
proof (cases rule: invoke_stages [of w path h opts])
  case (unresolved e)
  then show ?thesis by simp
next
  case (denied spec e)
  then show ?thesis
    by (simp add: note_target_def trace_line_stderr newline_def)
next
  case (no_shell spec e)
  then show ?thesis
    by (simp add: note_target_def trace_line_stderr newline_def)
next
  case (no_script spec shell e)
  then show ?thesis
    by (simp add: note_target_def note_shell_def trace_line_stderr newline_def)
next
  case (handed spec shell artifact w3)
  have "stderr w3 = stderr (note_shell opts shell (note_target opts spec w))"
    using generate_written [OF handed(4)] by simp
  then have "stderr (final_world (invoke h path opts w)) =
             stderr (note_script opts artifact (note_shell opts shell (note_target opts spec w)))"
    using handed(5) hand_over_quiet [of h artifact "note_script opts artifact w3"]
    by (simp add: note_script_def trace_line_stderr)
  then show ?thesis
    using handed(1)
    by (simp add: note_target_def note_shell_def note_script_def trace_line_stderr newline_def)
qed

lemma invokeOrFallback_never_returns: "invokeOrFallback h path opts fb w \<noteq> Returns x w'"
proof (cases "invoke h path opts w")
  case (Returns e w1)
  then show ?thesis
    by (cases "fb (log_event FallbackRun w1)") (simp_all add: invokeOrFallback_def)
qed (simp_all add: invokeOrFallback_def)

lemma handleAutoCD_never_returns:
  "handleAutoCD (ExitWithDirectoryOrFallback h) item w \<noteq> Returns x w'"
  by (simp add: handleAutoCD_def Let_def ExitWithDirectoryOrFallback_def
        invokeOrFallback_never_returns)

lemma stderr_with_fallback:
  assumes "\<not> debug opts"
  shows "stderr (final_world (invokeOrFallback h path opts fallback w)) =
         stderr w @
         (case invoke h path opts w of
            Returns e w1 \<Rightarrow> ''fzf: autocd failed, falling back to normal exit'' @ newline
          | Exits c w1 \<Rightarrow> []
          | Replaced sh d w1 \<Rightarrow> [])"
  using assms invoke_stderr [of h path opts w]
  by (cases "invoke h path opts w")
     (auto simp: invokeOrFallback_def fallback_def write_stderr_def log_event_def)

subsection \<open>Absolute paths\<close>

lemma backtrack_ge: "dotdot \<le> w \<Longrightarrow> dotdot \<le> backtrack buf dotdot w"
  by (induction w) auto

lemma clean_loop_keeps_head:
  assumes "out \<noteq> []" and "1 \<le> dotdot"
  shows "clean_loop rooted path out dotdot \<noteq> [] \<and>
         hd (clean_loop rooted path out dotdot) = hd out"
  using assms
proof (induction rooted path out dotdot rule: clean_loop.induct)
  case (1 rooted out dotdot)
  then show ?case by simp
next
  case (2 rooted c cs out dotdot)
  have bt: "length out > dotdot \<Longrightarrow>
      take (backtrack out dotdot (length out - 1)) out \<noteq> [] \<and>
      hd (take (backtrack out dotdot (length out - 1)) out) = hd out"
  proof -
    assume gt: "length out > dotdot"
    then have "dotdot \<le> backtrack out dotdot (length out - 1)"
      by (intro backtrack_ge) simp
    then have "1 \<le> backtrack out dotdot (length out - 1)"
      using "2.prems"(2) by simp
    then show ?thesis
      using "2.prems"(1) by (cases out) auto
  qed
  show ?case
    using 2 bt by (auto simp: Let_def)
qed

lemma Clean_rooted: "rooted_path p \<Longrightarrow> rooted_path (filepath_Clean p)"
proof -
  assume r: "rooted_path p"
  then obtain t where p: "p = CHR ''/'' # t"
    by (cases p) (auto simp: rooted_path_def)
  have "clean_loop True t ''/'' 1 \<noteq> [] \<and> hd (clean_loop True t ''/'' 1) = CHR ''/''"
    using clean_loop_keeps_head [of "''/''" 1 True t] by simp
  then show ?thesis
    using p by (cases "clean_loop True t ''/'' 1") (auto simp: filepath_Clean_def rooted_path_def)
qed

lemma Dir_rooted: "rooted_path p \<Longrightarrow> rooted_path (filepath_Dir p)"
proof -
  assume r: "rooted_path p"
  then obtain t where p: "p = CHR ''/'' # t"
    by (cases p) (auto simp: rooted_path_def)
  have "rev (dropWhile (\<lambda>c. c \<noteq> CHR ''/'') (rev p)) =
        CHR ''/'' # rev (dropWhile (\<lambda>c. c \<noteq> CHR ''/'') (rev t)) \<or>
        rev (dropWhile (\<lambda>c. c \<noteq> CHR ''/'') (rev p)) = ''/''"
    using p by (auto simp: dropWhile_append)
  then have "rooted_path (rev (dropWhile (\<lambda>c. c \<noteq> CHR ''/'') (rev p)))"
    by (auto simp: rooted_path_def)
  then show ?thesis
    unfolding filepath_Dir_def by (rule Clean_rooted)
qed

lemma absolute_rooted: "rooted_path wd \<Longrightarrow> rooted_path (absolute wd p)"
proof -
  assume r: "rooted_path wd"
  then have "rooted_path (wd @ ''/'' @ p)"
    by (cases wd) (auto simp: rooted_path_def)
  moreover have "p \<noteq> [] \<and> hd p = CHR ''/'' \<Longrightarrow> rooted_path p"
    by (cases p) (auto simp: rooted_path_def)
  ultimately show ?thesis
    by (auto simp: absolute_def intro: Clean_rooted)
qed

lemma resolve_rooted:
  "resolve w path = Inr spec \<Longrightarrow> rooted_path (cwd w) \<Longrightarrow> rooted_path (resolvedDir spec)"
  by (auto simp: resolve_def absolute_rooted Dir_rooted
           split: if_splits option.splits filekind.splits)

lemma validate_ok:
  "validate h w spec level = Inr u \<Longrightarrow> isDirectory (fs w) (resolvedDir spec)"
  by (auto simp: validate_def split: if_splits)

lemma script_for_run:
  assumes "isDirectory (fs w) (resolvedDir spec)"
  shows "stdout (end_world (run_script self sc (script_for spec shell) code w)) =
           stdout w @ confirmation (resolvedDir spec) \<and>
         cwd (end_world (run_script self sc (script_for spec shell) code w)) = resolvedDir spec"
  using assms
  by (auto simp: script_for_def write_stdout_def log_event_def)


lemma execute_success:
  assumes "execute h a w = r" and "r = Replaced sh d w1 \<or> r = Exits c w1"
  shows "w1 = end_world (run_script (filePath a) (child_exit h) (contents a) 0
                  (log_event (ExecAttempted (filePath a)) w)) \<and>
         (r = Replaced sh d w1 \<longrightarrow> d = cwd w1)"
  using assms
  by (auto simp: execute_def split: Platform.splits option.splits script_end.splits)

lemma hand_over_success:
  assumes "hand_over h a w = r" and "r = Replaced sh d w1 \<or> r = Exits c w1"
  shows "w1 = end_world (run_script (filePath a) (child_exit h) (contents a) 0
                  (log_event (ExecAttempted (filePath a)) w)) \<and>
         (r = Replaced sh d w1 \<longrightarrow> d = cwd w1)"
proof -
  have "execute h a w = r"
    using assms by (auto simp: hand_over_def split: flow.splits)
  then show ?thesis
    using assms(2) by (rule execute_success)
qed

lemma script_for_order:
  "\<exists>rest. script_for spec shell = ChangeDir (resolvedDir spec) # rest \<and>
      (\<forall>dir. ChangeDir dir \<notin> set rest) \<and>
      (ExecShell (executablePath shell) \<in> set rest \<or>
       InvokeShell (executablePath shell) \<in> set rest)"
  by (simp add: script_for_def)

subsection \<open>Runs on the example hosts\<close>

lemmas stage_defs =
  invoke_def resolve_def validate_def detect_def generate_def hand_over_def execute_def
  absolute_def filepath_Clean_def filepath_Dir_def os_Stat_def isDirectory_def
  note_target_def note_shell_def note_script_def trace_line_def default_options_def
  demo_world_def demo_files_def demo_host_def no_shell_host_def no_tmp_host_def
  exec_fails_host_def script_for_def posix_style_def shell_kind_def base_name_def
  remove_artifact_def log_event_def write_stdout_def write_stderr_def confirmation_def




lemma demo_exec_fails:
  "\<exists>w1. invoke exec_fails_host ''/tmp'' (default_options exec_fails_host) demo_world =
     Returns (ExecFailed 13) w1"
  by (simp add: stage_defs)

lemma demo_handoff:
  "\<exists>w1. invoke demo_host ''Users/sam/Desktop/Notes'' (default_options demo_host) demo_world =
     Replaced ''/bin/bash'' ''/Users/sam/Desktop/Notes'' w1"
  by (simp add: stage_defs)



lemma demo_rooted: "rooted_path (cwd demo_world)"
  by (simp add: rooted_path_def demo_world_def)

subsection \<open>The handoff claims\<close>





text \<open>
  C6. After every failing run the file system is as before the run, given that the
  temporary script path was fresh: no script artifact persists. A script was written
  during the run only if the error is ExecFailed or UnsupportedPlatform, and then its
  removal is the last logged event and the path is absent again; for every other error
  (ScriptGenerationFailed included) nothing was written.
\<close>

theorem no_artifact_after_failure:
  assumes failed: "invoke h path opts w = Returns e w1"
    and fresh: "case tmp_script h of None \<Rightarrow> True | Some p \<Rightarrow> fs w p = None"
  shows "fs w1 = fs w \<and>
         (\<exists>evs. trace w1 = trace w @ evs \<and>
            (if e = UnsupportedPlatform \<or> (\<exists>n. e = ExecFailed n)
             then \<exists>p. tmp_script h = Some p \<and> fs w1 p = None \<and>
                      hd evs = ScriptWritten p \<and> last evs = ScriptRemoved p
             else evs = []))"
proof (cases rule: invoke_stages [of w path h opts])
  case (unresolved e')
  then show ?thesis
    using failed resolve_error by auto
next
  case (denied spec e')
  then show ?thesis
    using failed validate_error [OF denied(2)] by auto
next
  case (no_shell spec e')
  then show ?thesis
    using failed detect_error [OF no_shell(3)] by auto
next
  case (no_script spec shell e')
  then show ?thesis
    using failed generate_error [OF no_script(4)] by auto
next
  case (handed spec shell artifact w3)
  have gen: "tmp_script h = Some (filePath artifact)"
    "fs w3 = (fs w)(filePath artifact \<mapsto> RegularFile)"
    "trace w3 = trace w @ [ScriptWritten (filePath artifact)]"
    using generate_written [OF handed(4)] by simp_all
  have fr: "fs w (filePath artifact) = None"
    using fresh gen(1) by simp
  have ho: "hand_over h artifact (note_script opts artifact w3) = Returns e w1"
    using failed handed(5) by simp
  have files: "fs w1 = fs w"
    using hand_over_returns [OF ho] gen(2) fr by auto
  show ?thesis
    using hand_over_returns [OF ho] gen files fr by auto
qed

theorem no_artifact_after_failure_witness:
  "\<exists>w1. invoke exec_fails_host ''/tmp'' (default_options exec_fails_host) demo_world =
          Returns (ExecFailed 13) w1 \<and>
        fs w1 = fs demo_world \<and> fs w1 ''/tmp/autocd_1.sh'' = None \<and>
        last (trace w1) = ScriptRemoved ''/tmp/autocd_1.sh''"
proof -
  obtain w1 where ex: "invoke exec_fails_host ''/tmp'' (default_options exec_fails_host)
      demo_world = Returns (ExecFailed 13) w1"
    using demo_exec_fails by blast
  have tmp: "tmp_script exec_fails_host = Some ''/tmp/autocd_1.sh''"
    by (simp add: exec_fails_host_def demo_host_def)
  have fresh: "case tmp_script exec_fails_host of None \<Rightarrow> True
               | Some p \<Rightarrow> fs demo_world p = None"
    by (simp add: tmp demo_world_def demo_files_def)
  have "fs w1 = fs demo_world \<and> fs w1 ''/tmp/autocd_1.sh'' = None \<and>
        last (trace w1) = ScriptRemoved ''/tmp/autocd_1.sh''"
    using no_artifact_after_failure [OF ex fresh] tmp
    by (auto simp: demo_world_def)
  then show ?thesis
    using ex by blast
qed

text \<open>
  C7. After every successful handoff (the process is replaced by the shell, or it exits
  with the code of the shell it waited for) the standard output has grown by exactly the
  one line \<^verbatim>\<open>Directory changed to: \<close> followed by the resolved directory, which is an
  absolute path (given an absolute working directory) and an existing directory; the
  shell runs in that directory. The world in which the shell takes over already holds
  the line.
\<close>

theorem confirmation_line_on_handoff:
  assumes run: "invoke h path opts w = r"
    and success: "r = Replaced sh d w1 \<or> r = Exits c w1"
    and fresh: "case tmp_script h of None \<Rightarrow> True | Some p \<Rightarrow> fs w p = None"
    and wd: "rooted_path (cwd w)"
  shows "\<exists>spec. resolve w path = Inr spec \<and>
           rooted_path (resolvedDir spec) \<and>
           isDirectory (fs w) (resolvedDir spec) \<and>
           stdout w1 = stdout w @ ''Directory changed to: '' @ resolvedDir spec @ newline \<and>
           cwd w1 = resolvedDir spec \<and>
           (r = Replaced sh d w1 \<longrightarrow> d = resolvedDir spec)"
proof (cases rule: invoke_stages [of w path h opts])
  case (unresolved e)
  then show ?thesis using run success by auto
next
  case (denied spec e)
  then show ?thesis using run success by auto
next
  case (no_shell spec e)
  then show ?thesis using run success by auto
next
  case (no_script spec shell e)
  then show ?thesis using run success by auto
next
  case (handed spec shell artifact w3)
  let ?p = "filePath artifact"
  let ?w5 = "log_event (ExecAttempted ?p) (note_script opts artifact w3)"
  have gen: "tmp_script h = Some ?p" "contents artifact = script_for spec shell"
    "fs w3 = (fs w)(?p \<mapsto> RegularFile)" "stdout w3 = stdout w"
    using generate_written [OF handed(4)] by simp_all
  have dir: "isDirectory (fs w) (resolvedDir spec)"
    using validate_ok [OF handed(2)] by simp
  have "fs w ?p = None"
    using fresh gen(1) by simp
  then have "?p \<noteq> resolvedDir spec"
    using dir by (auto simp: isDirectory_def os_Stat_def split: if_splits)
  then have dir5: "isDirectory (fs ?w5) (resolvedDir spec)"
    using dir gen(3) by (auto simp: isDirectory_def os_Stat_def log_event_def split: if_splits)
  have out5: "stdout ?w5 = stdout w"
    using gen(4) by (simp add: log_event_def)
  have ho: "hand_over h artifact (note_script opts artifact w3) = r"
    using run handed(5) by simp
  note ended = hand_over_success [OF ho success, unfolded gen(2)]
  have w1: "w1 = end_world (run_script ?p (child_exit h) (script_for spec shell) 0 ?w5)"
    using ended by (rule conjunct1)
  have d: "r = Replaced sh d w1 \<longrightarrow> d = cwd w1"
    using ended by (rule conjunct2)
  have "stdout w1 = stdout w @ confirmation (resolvedDir spec) \<and> cwd w1 = resolvedDir spec"
    using script_for_run [OF dir5, of ?p "child_exit h" shell 0] w1 out5 by simp
  then show ?thesis
    using handed(1) resolve_rooted [OF handed(1) wd] dir d
    by (simp add: confirmation_def)
qed

theorem confirmation_line_on_handoff_witness:
  "\<exists>w1. invoke demo_host ''Users/sam/Desktop/Notes'' (default_options demo_host) demo_world =
          Replaced ''/bin/bash'' ''/Users/sam/Desktop/Notes'' w1 \<and>
        stdout w1 = ''Directory changed to: /Users/sam/Desktop/Notes'' @ newline \<and>
        cwd w1 = ''/Users/sam/Desktop/Notes''"
proof -
  obtain w1 where run: "invoke demo_host ''Users/sam/Desktop/Notes'' (default_options demo_host)
      demo_world = Replaced ''/bin/bash'' ''/Users/sam/Desktop/Notes'' w1"
    using demo_handoff by blast
  have fresh: "case tmp_script demo_host of None \<Rightarrow> True | Some p \<Rightarrow> fs demo_world p = None"
    by (simp add: demo_host_def demo_world_def demo_files_def)
  have ok: "Replaced ''/bin/bash'' ''/Users/sam/Desktop/Notes'' w1 =
              Replaced ''/bin/bash'' ''/Users/sam/Desktop/Notes'' w1 \<or>
            Replaced ''/bin/bash'' ''/Users/sam/Desktop/Notes'' w1 = Exits 0 w1"
    by simp
  have "stdout w1 = ''Directory changed to: /Users/sam/Desktop/Notes'' @ newline \<and>
        cwd w1 = ''/Users/sam/Desktop/Notes''"
    using confirmation_line_on_handoff [OF run ok fresh demo_rooted]
    by (auto simp: demo_world_def)
  then show ?thesis
    using run by blast
qed

end
